theory Spec2Isabelle
  imports Main "HOL-Library.Word"
begin

unbundle bit_operations_syntax

section \<open>Data model of \<open>yuv_to_rgb.cpp\<close>\<close>

text \<open>
  The JNI types of the source: \<open>jbyte\<close> is a signed 8-bit integer, \<open>jint\<close> (and the C++
  \<open>int\<close> of the Android ABIs) a signed 32-bit one. Both are words; \<open>sint\<close> reads the
  signed value. The two Java arrays are lists. A Java array has fewer than \<open>2 ^ 31\<close>
  elements; the theorems state that bound where they need it.
\<close>

type_synonym jbyte = "8 word"
type_synonym jint = "32 word"

text \<open>
  An access outside an array is undefined behaviour in C++. The model makes it a value,
  so that every theorem about a result also says that no such access happened.
\<close>

datatype fault = OutOfBounds

definition load :: "jbyte list \<Rightarrow> jint \<Rightarrow> fault + jbyte" where
  "load a i =
     (if 0 \<le> sint i \<and> nat (sint i) < length a then Inr (a ! nat (sint i))
      else Inl OutOfBounds)"

definition store :: "jint list \<Rightarrow> jint \<Rightarrow> jint \<Rightarrow> fault + jint list" where
  "store a i w =
     (if 0 \<le> sint i \<and> nat (sint i) < length a then Inr (a[nat (sint i) := w])
      else Inl OutOfBounds)"

section \<open>The clamp helper\<close>

text \<open>
  \<^verbatim>\<open>inline uint8_t clamp(int x) {
  return (x < 0) ? 0 : ((x > 255) ? 255 : static_cast<uint8_t>(x)); }\<close>
  The cast to \<open>uint8_t\<close> keeps the low eight bits (\<open>ucast\<close>).
\<close>

definition clamp :: "jint \<Rightarrow> 8 word" where
  "clamp x = (if x <s 0 then 0 else if 255 <s x then 255 else ucast x)"

section \<open>The per-pixel arithmetic\<close>

text \<open>
  Lines 26 to 28: \<^verbatim>\<open>int y = (0xff & yuv[yp]) - 16; if (y < 0) y = 0;\<close>
  The byte is promoted to \<open>int\<close> with its sign (\<open>scast\<close>) and masked.
\<close>

definition luma :: "jbyte \<Rightarrow> jint" where
  "luma yb = (let y = (0xff AND scast yb) - 16 in if y <s 0 then 0 else y)"

text \<open>Lines 31 and 32: \<^verbatim>\<open>(0xff & yuv[uvp++]) - 128\<close>.\<close>

definition chroma :: "jbyte \<Rightarrow> jint" where
  "chroma cb = (0xff AND scast cb) - 128"

text \<open>Lines 35 to 38, one definition for each local variable.\<close>

definition y1192 :: "jint \<Rightarrow> jint" where
  "y1192 y = 1192 * y"

definition r_pre :: "jint \<Rightarrow> jint \<Rightarrow> jint" where
  "r_pre y v = y1192 y + 1634 * v"

definition g_pre :: "jint \<Rightarrow> jint \<Rightarrow> jint \<Rightarrow> jint" where
  "g_pre y u v = y1192 y - 833 * v - 400 * u"

definition b_pre :: "jint \<Rightarrow> jint \<Rightarrow> jint" where
  "b_pre y u = y1192 y + 2066 * u"

text \<open>
  Lines 40 to 42: \<^verbatim>\<open>r = clamp((r >> 10) + 2);\<close> The shift of a signed \<open>int\<close> is
  arithmetic (\<open>signed_drop_bit\<close>); the \<open>uint8_t\<close> that \<open>clamp\<close> returns is widened back
  to \<open>int\<close> without sign (\<open>ucast\<close>).
\<close>

definition channel :: "jint \<Rightarrow> jint" where
  "channel c = ucast (clamp (signed_drop_bit 10 c + 2))"

text \<open>Line 44: \<^verbatim>\<open>0xff000000 | (r << 16) | (g << 8) | b\<close>.\<close>

definition pack :: "jint \<Rightarrow> jint \<Rightarrow> jint \<Rightarrow> jint" where
  "pack r g b = 0xff000000 OR push_bit 16 r OR push_bit 8 g OR b"

definition argb :: "jint \<Rightarrow> jint \<Rightarrow> jint \<Rightarrow> jint" where
  "argb y u v = pack (channel (r_pre y v)) (channel (g_pre y u v)) (channel (b_pre y u))"

section \<open>The converter\<close>

text \<open>
  The variables the two loops update: the luma and output cursor \<open>yp\<close>, the chroma
  cursor \<open>uvp\<close>, the current chroma pair \<open>u\<close>, \<open>v\<close>, and the output array. (The
  variable \<open>j\<close> of line 18 is never read or written again.)
\<close>

record state =
  yp :: jint
  uvp :: jint
  u :: jint
  v :: jint
  rgb :: "jint list"

text \<open>Lines 30 to 33: at an even column two bytes are read, \<open>v\<close> first.\<close>

definition fetch_uv :: "jbyte list \<Rightarrow> jint \<Rightarrow> state \<Rightarrow> fault + state" where
  "fetch_uv yuv x s =
     (if x AND 1 = 0 then
        (case load yuv (uvp s) of
           Inl e \<Rightarrow> Inl e
         | Inr vb \<Rightarrow>
             (case load yuv (uvp s + 1) of
                Inl e \<Rightarrow> Inl e
              | Inr ub \<Rightarrow> Inr (s\<lparr>v := chroma vb, u := chroma ub, uvp := uvp s + 2\<rparr>)))
      else Inr s)"

text \<open>The body of the inner loop, lines 26 to 46.\<close>

definition pixel_step :: "jbyte list \<Rightarrow> jint \<Rightarrow> state \<Rightarrow> fault + state" where
  "pixel_step yuv x s =
     (case load yuv (yp s) of
        Inl e \<Rightarrow> Inl e
      | Inr yb \<Rightarrow>
          (case fetch_uv yuv x s of
             Inl e \<Rightarrow> Inl e
           | Inr s1 \<Rightarrow>
               (case store (rgb s1) (yp s1) (argb (luma yb) (u s1) (v s1)) of
                  Inl e \<Rightarrow> Inl e
                | Inr out \<Rightarrow> Inr (s1\<lparr>rgb := out, yp := yp s1 + 1\<rparr>))))"

text \<open>
  Both loop counters are signed 32-bit integers that stay below their bound, so the
  increment never wraps. This is what makes the loops terminate.
\<close>

lemma sint_add32:
  "- (2 ^ 31) \<le> sint a + sint b \<Longrightarrow> sint a + sint b < 2 ^ 31 \<Longrightarrow>
   sint (a + b) = sint a + sint b"
  for a b :: jint
  by (simp add: sint_word_add signed_take_bit_int_eq_self)

lemma sint_succ: "x <s bound \<Longrightarrow> sint (x + 1) = sint x + 1" for x :: jint
  using sint_lt [of bound] sint_ge [of x]
  by (simp add: word_sless_alt sint_add32)

text \<open>The inner loop, line 25: \<^verbatim>\<open>for (int x = 0; x < width; x++)\<close>.\<close>

function row_loop :: "jbyte list \<Rightarrow> jint \<Rightarrow> jint \<Rightarrow> state \<Rightarrow> fault + state" where
  "row_loop yuv width x s =
     (if x <s width then
        (case pixel_step yuv x s of
           Inl e \<Rightarrow> Inl e
         | Inr s' \<Rightarrow> row_loop yuv width (x + 1) s')
      else Inr s)"
  by pat_completeness auto
termination
  by (relation "measure (\<lambda>(yuv, width, x, s). nat (sint width - sint x))")
     (simp_all add: sint_succ word_sless_alt)

declare row_loop.simps [simp del]

text \<open>
  The outer loop, lines 20 to 23: \<^verbatim>\<open>for (int i = 0; i < height; i++)\<close>, which
  sets \<^verbatim>\<open>uvp = frameSize + (i >> 1) * width\<close>, \<^verbatim>\<open>u = 0\<close>, \<^verbatim>\<open>v = 0\<close>
  before each row.
\<close>

function frame_loop ::
  "jbyte list \<Rightarrow> jint \<Rightarrow> jint \<Rightarrow> jint \<Rightarrow> jint \<Rightarrow> state \<Rightarrow> fault + state" where
  "frame_loop yuv width height frameSize i s =
     (if i <s height then
        (case row_loop yuv width 0
                (s\<lparr>uvp := frameSize + signed_drop_bit 1 i * width, u := 0, v := 0\<rparr>) of
           Inl e \<Rightarrow> Inl e
         | Inr s' \<Rightarrow> frame_loop yuv width height frameSize (i + 1) s')
      else Inr s)"
  by pat_completeness auto
termination
  by (relation "measure (\<lambda>(yuv, width, height, frameSize, i, s). nat (sint height - sint i))")
     (simp_all add: sint_succ word_sless_alt)

declare frame_loop.simps [simp del]

text \<open>
  The exported function, lines 11 to 52. It returns nothing and checks nothing; its
  effect is the new content of \<open>rgbOut\<close> (released with copy-back, line 51), which the
  model returns. The input is released without copy-back and is not part of the result.
  The two arrays are taken as given (a null reference is outside the model).

  Signed overflow is undefined in C++; the model wraps, as the machine does. For the
  frames the theorems are about, no index computation wraps (the lemmas on indices as
  natural numbers) and no step of the per-pixel arithmetic does (claim C9).
\<close>

definition Java_com_mrousavy_camera_core_FaceDetectionRecorder_nativeYUV420toARGB8888 ::
  "jbyte list \<Rightarrow> jint \<Rightarrow> jint \<Rightarrow> jint list \<Rightarrow> fault + jint list" where
  "Java_com_mrousavy_camera_core_FaceDetectionRecorder_nativeYUV420toARGB8888
     yuv420sp width height rgbOut =
     (let frameSize = width * height in
      case frame_loop yuv420sp width height frameSize 0
             \<lparr>yp = 0, uvp = 0, u = 0, v = 0, rgb = rgbOut\<rparr> of
        Inl e \<Rightarrow> Inl e
      | Inr s \<Rightarrow> Inr (rgb s))"

abbreviation nativeYUV420toARGB8888 ::
  "jbyte list \<Rightarrow> jint \<Rightarrow> jint \<Rightarrow> jint list \<Rightarrow> fault + jint list" where
  "nativeYUV420toARGB8888 \<equiv>
     Java_com_mrousavy_camera_core_FaceDetectionRecorder_nativeYUV420toARGB8888"

section \<open>The arithmetic as the specification words it\<close>

text \<open>
  The specification states the per-pixel arithmetic over unbounded integers: with
  \<open>y' = max(0, Y - 16)\<close>, \<open>u' = U - 128\<close>, \<open>v' = V - 128\<close>, three pre-clamp sums, an
  arithmetic right shift by 10 bits (\<open>drop_bit\<close> on \<open>int\<close> rounds towards minus
  infinity), a bias of 2, saturation to \<open>0..255\<close> and the packing
  \<open>0xFF000000 | (R<<16) | (G<<8) | B\<close>. These definitions follow those words; the
  theorems below compare them with the definitions taken from the source.
\<close>

definition spec_clamp :: "int \<Rightarrow> int" where
  "spec_clamp x = (if x < 0 then 0 else if x > 255 then 255 else x)"

definition spec_R_pre :: "int \<Rightarrow> int \<Rightarrow> int" where
  "spec_R_pre y' v' = 1192 * y' + 1634 * v'"

definition spec_G_pre :: "int \<Rightarrow> int \<Rightarrow> int \<Rightarrow> int" where
  "spec_G_pre y' u' v' = 1192 * y' - 833 * v' - 400 * u'"

definition spec_B_pre :: "int \<Rightarrow> int \<Rightarrow> int" where
  "spec_B_pre y' u' = 1192 * y' + 2066 * u'"

definition spec_channel :: "int \<Rightarrow> int" where
  "spec_channel c = spec_clamp (drop_bit 10 c + 2)"

definition spec_pixel :: "int \<Rightarrow> int \<Rightarrow> int \<Rightarrow> int" where
  "spec_pixel Y U V =
     (let y' = max 0 (Y - 16); u' = U - 128; v' = V - 128;
          R = spec_channel (spec_R_pre y' v');
          G = spec_channel (spec_G_pre y' u' v');
          B = spec_channel (spec_B_pre y' u')
      in 0xFF000000 OR push_bit 16 R OR push_bit 8 G OR B)"

section \<open>Reading an output word\<close>

text \<open>
  The bytes of a packed word \<open>0xAARRGGBB\<close>: alpha in bits 24 to 31, red in bits 16 to
  23, green in bits 8 to 15, blue in bits 0 to 7.
\<close>

definition alpha :: "jint \<Rightarrow> jint" where "alpha w = drop_bit 24 w AND 0xFF"

definition red :: "jint \<Rightarrow> jint" where "red w = drop_bit 16 w AND 0xFF"

definition green :: "jint \<Rightarrow> jint" where "green w = drop_bit 8 w AND 0xFF"

definition blue :: "jint \<Rightarrow> jint" where "blue w = w AND 0xFF"

section \<open>What the loops compute, in closed form\<close>

text \<open>
  The pixel at index \<open>k\<close> lies in row \<open>k div W\<close> and column \<open>k mod W\<close>. In that row the
  chroma cursor starts at \<open>W * H + (row div 2) * W\<close> and has advanced by two bytes for
  every pair of columns before this one; the first byte of the pair is \<open>v\<close>, the second
  \<open>u\<close>. The lemmas \<open>row_loop_correct\<close>, \<open>frame_loop_correct\<close> and \<open>convert_in_bounds\<close>
  prove that the loops of the source compute exactly this.
\<close>

definition uv_offset :: "nat \<Rightarrow> nat \<Rightarrow> nat \<Rightarrow> nat" where
  "uv_offset W H k = W * H + (k div W div 2) * W + 2 * (k mod W div 2)"

definition pixel_of :: "jbyte list \<Rightarrow> nat \<Rightarrow> nat \<Rightarrow> nat \<Rightarrow> jint" where
  "pixel_of yuv W H k =
     argb (luma (yuv ! k)) (chroma (yuv ! (uv_offset W H k + 1)))
       (chroma (yuv ! uv_offset W H k))"

text \<open>
  The accesses of a run stay inside the two arrays: the last chroma pair read is the one
  of the last row and of the last even column.
\<close>

definition in_bounds :: "jbyte list \<Rightarrow> jint \<Rightarrow> jint \<Rightarrow> jint list \<Rightarrow> bool" where
  "in_bounds yuv width height rgbOut \<longleftrightarrow>
     0 < sint width \<and> 0 < sint height \<and>
     (let W = nat (sint width); H = nat (sint height) in
        W * H \<le> length rgbOut \<and>
        W * H + ((H - 1) div 2) * W + 2 * ((W + 1) div 2) \<le> length yuv) \<and>
     length yuv < 2 ^ 31 \<and> length rgbOut < 2 ^ 31"

text \<open>
  A valid frame, as the specification defines it: positive even dimensions, an input of
  \<open>width * height * 3 / 2\<close> bytes and an output of \<open>width * height\<close> words. The last
  conjunct is the size limit of a Java array.
\<close>

definition valid_frame :: "jbyte list \<Rightarrow> jint \<Rightarrow> jint \<Rightarrow> jint list \<Rightarrow> bool" where
  "valid_frame yuv width height rgbOut \<longleftrightarrow>
     0 < sint width \<and> 0 < sint height \<and> even (sint width) \<and> even (sint height) \<and>
     int (length yuv) = sint width * sint height * 3 div 2 \<and>
     int (length rgbOut) = sint width * sint height \<and>
     length yuv < 2 ^ 31"

section \<open>Signed 32-bit arithmetic without wrap-around\<close>

text \<open>
  The operations on \<open>jint\<close> wrap modulo \<open>2 ^ 32\<close>. Where the exact result lies in the
  signed range, the wrapped result is the exact one.
\<close>

lemma sint_sub32:
  "- (2 ^ 31) \<le> sint a - sint b \<Longrightarrow> sint a - sint b < 2 ^ 31 \<Longrightarrow>
   sint (a - b) = sint a - sint b"
  for a b :: jint
  by (simp add: sint_word_diff signed_take_bit_int_eq_self)

lemma sint_mult32:
  "- (2 ^ 31) \<le> sint a * sint b \<Longrightarrow> sint a * sint b < 2 ^ 31 \<Longrightarrow>
   sint (a * b) = sint a * sint b"
  for a b :: jint
  by (simp add: sint_word_mult signed_take_bit_int_eq_self)

lemma uint_eq_sint: "0 \<le> sint x \<Longrightarrow> uint x = sint x" for x :: jint
  using sint_lt [of x] by (simp add: uint_sint take_bit_int_eq_self)

lemma ff_mask: "(0xff :: jint) = mask 8"
  by (simp add: mask_eq_exp_minus_1)

lemma mask_byte: "(0xff AND scast (b :: jbyte) :: jint) = ucast b"
  unfolding ff_mask
proof (rule bit_word_eqI)
  fix n assume "n < LENGTH(32)"
  show "bit (mask 8 AND (scast b :: jint)) n = bit (ucast b :: jint) n"
    using bit_imp_le_length [of b n]
    by (cases "n = 7") (auto simp: bit_simps min_def)
qed

lemma uint_byte_bounds: "0 \<le> uint b \<and> uint b \<le> 255" for b :: "8 word"
  using uint_lt2p [of b] by simp

lemma sint_ucast_byte: "sint (ucast (b :: 8 word) :: jint) = uint b"
proof -
  have "uint b < 2147483648" "- 2147483648 \<le> uint b"
    using uint_byte_bounds [of b] by linarith+
  then show ?thesis
    by (simp add: sint_uint signed_take_bit_int_eq_self_iff unsigned_ucast_eq
        take_bit_int_eq_self)
qed

lemma uint_ucast_down:
  "0 \<le> sint x \<Longrightarrow> sint x \<le> 255 \<Longrightarrow> uint (ucast x :: 8 word) = sint x" for x :: jint
  by (simp add: unsigned_ucast_eq uint_eq_sint take_bit_int_eq_self)

lemma uint_clamp: "uint (clamp x) = max 0 (min 255 (sint x))"
  by (simp add: clamp_def word_sless_alt uint_ucast_down)

lemma sint_luma: "sint (luma yb) = max 0 (uint yb - 16)"
proof -
  have "sint ((ucast yb :: jint) - 16) = uint yb - 16"
    using uint_byte_bounds [of yb] by (simp add: sint_sub32 sint_ucast_byte)
  then show ?thesis
    by (simp add: luma_def mask_byte Let_def word_sless_alt max_def)
qed

lemma sint_chroma: "sint (chroma cb) = uint cb - 128"
  using uint_byte_bounds [of cb]
  by (simp add: chroma_def mask_byte sint_sub32 sint_ucast_byte)

section \<open>The per-pixel arithmetic is exact\<close>

lemma luma_range: "0 \<le> sint (luma yb) \<and> sint (luma yb) \<le> 239"
  using uint_byte_bounds [of yb] by (simp add: sint_luma)

lemma chroma_range: "- 128 \<le> sint (chroma cb) \<and> sint (chroma cb) \<le> 127"
  using uint_byte_bounds [of cb] by (simp add: sint_chroma)

lemma sint_y1192: "sint (y1192 (luma yb)) = 1192 * sint (luma yb)"
  using luma_range [of yb] by (simp add: y1192_def sint_mult32)

lemma sint_1634: "sint (1634 * chroma cb) = 1634 * sint (chroma cb)"
  using chroma_range [of cb] by (simp add: sint_mult32)

lemma sint_833: "sint (833 * chroma cb) = 833 * sint (chroma cb)"
  using chroma_range [of cb] by (simp add: sint_mult32)

lemma sint_400: "sint (400 * chroma cb) = 400 * sint (chroma cb)"
  using chroma_range [of cb] by (simp add: sint_mult32)

lemma sint_2066: "sint (2066 * chroma cb) = 2066 * sint (chroma cb)"
  using chroma_range [of cb] by (simp add: sint_mult32)

lemma sint_r_pre:
  "sint (r_pre (luma yb) (chroma vb)) = 1192 * sint (luma yb) + 1634 * sint (chroma vb)"
  using luma_range [of yb] chroma_range [of vb]
  by (simp add: r_pre_def sint_add32 sint_y1192 sint_1634)

lemma sint_g_part:
  "sint (y1192 (luma yb) - 833 * chroma vb) = 1192 * sint (luma yb) - 833 * sint (chroma vb)"
  using luma_range [of yb] chroma_range [of vb]
  by (simp add: sint_sub32 sint_y1192 sint_833)

lemma sint_g_pre:
  "sint (g_pre (luma yb) (chroma ub) (chroma vb)) =
   1192 * sint (luma yb) - 833 * sint (chroma vb) - 400 * sint (chroma ub)"
  using luma_range [of yb] chroma_range [of vb] chroma_range [of ub]
  by (simp add: g_pre_def sint_sub32 sint_g_part sint_400)

lemma sint_b_pre:
  "sint (b_pre (luma yb) (chroma ub)) = 1192 * sint (luma yb) + 2066 * sint (chroma ub)"
  using luma_range [of yb] chroma_range [of ub]
  by (simp add: b_pre_def sint_add32 sint_y1192 sint_2066)

lemma sint_shift2: "sint (signed_drop_bit 10 c + 2) = drop_bit 10 (sint c) + 2" for c :: jint
proof -
  have "sint (signed_drop_bit 10 c) = sint c div 1024"
    by (simp add: sint_signed_drop_bit_eq drop_bit_eq_div)
  moreover have "- 2147483648 \<le> sint c" "sint c < 2147483648"
    using sint_ge [of c] sint_lt [of c] by simp_all
  ultimately show ?thesis
    by (simp add: sint_add32 drop_bit_eq_div)
qed

lemma spec_clamp_max_min: "spec_clamp x = max 0 (min 255 x)"
  by (simp add: spec_clamp_def)

lemma channel_ucast: "channel c = ucast (clamp (signed_drop_bit 10 c + 2))"
  by (simp add: channel_def)

lemma sint_channel: "sint (channel c) = spec_channel (sint c)"
  by (simp add: channel_def sint_ucast_byte uint_clamp sint_shift2 spec_channel_def
      spec_clamp_max_min)

lemma channel_range: "0 \<le> sint (channel c) \<and> sint (channel c) \<le> 255"
  by (simp add: sint_channel spec_channel_def spec_clamp_max_min)

lemma sint_push16: "sint (push_bit 16 (channel c)) = push_bit 16 (sint (channel c))"
  using channel_range [of c] by (simp add: push_bit_eq_mult sint_mult32)

lemma sint_push8: "sint (push_bit 8 (channel c)) = push_bit 8 (sint (channel c))"
  using channel_range [of c] by (simp add: push_bit_eq_mult sint_mult32)

lemma uint_pack:
  "uint (pack (channel r) (channel g) (channel b)) =
   0xFF000000 OR push_bit 16 (sint (channel r)) OR push_bit 8 (sint (channel g))
     OR sint (channel b)"
proof -
  have "0 \<le> sint (push_bit 16 (channel r))" "0 \<le> sint (push_bit 8 (channel g))"
    using channel_range [of r] channel_range [of g]
    by (simp_all add: sint_push16 sint_push8)
  then have "uint (push_bit 16 (channel r)) = push_bit 16 (sint (channel r))"
       "uint (push_bit 8 (channel g)) = push_bit 8 (sint (channel g))"
    by (simp_all add: uint_eq_sint sint_push16 sint_push8)
  moreover have "uint (channel b) = sint (channel b)"
    using channel_range [of b] by (simp add: uint_eq_sint)
  ultimately show ?thesis
    by (simp add: pack_def uint_or)
qed

lemma uint_argb:
  "uint (argb (luma yb) (chroma ub) (chroma vb)) = spec_pixel (uint yb) (uint ub) (uint vb)"
  by (simp add: argb_def uint_pack sint_channel sint_r_pre sint_g_pre sint_b_pre
      sint_luma sint_chroma spec_pixel_def Let_def spec_R_pre_def spec_G_pre_def
      spec_B_pre_def)

section \<open>The bits of the packed word\<close>

lemma ff000000: "(0xff000000 :: jint) = push_bit 24 (mask 8)"
  by (simp add: push_bit_eq_mult mask_eq_exp_minus_1)

lemma bit_pack:
  "bit (pack (ucast r) (ucast g) (ucast b)) n \<longleftrightarrow>
   n < 32 \<and> (24 \<le> n \<or> (16 \<le> n \<and> bit r (n - 16)) \<or> (8 \<le> n \<and> bit g (n - 8)) \<or> bit b n)"
  for r g b :: "8 word"
  using bit_imp_le_length [of r "n - 16"] bit_imp_le_length [of g "n - 8"] bit_imp_le_length [of b n]
  unfolding pack_def ff000000
  by (auto simp: bit_simps)

lemma alpha_pack: "alpha (pack (ucast r) (ucast g) (ucast b)) = 0xFF" for r g b :: "8 word"
  unfolding alpha_def ff_mask
  by (rule bit_word_eqI) (auto simp: bit_simps bit_pack)

lemma alpha_pack_signed: "signed_drop_bit 24 (pack (ucast r) (ucast g) (ucast b)) AND 0xFF = 0xFF" for r g b :: "8 word"
  unfolding ff_mask
  by (rule bit_word_eqI) (auto simp: bit_simps bit_pack)

lemma red_pack: "red (pack (ucast r) (ucast g) (ucast b)) = ucast r" for r g b :: "8 word"
  unfolding red_def ff_mask
  apply (rule bit_word_eqI)
  subgoal for n
  using bit_imp_le_length [of r "n"] bit_imp_le_length [of g "8 + n"] bit_imp_le_length [of b "16 + n"] 
  by (auto simp: bit_simps bit_pack)
  done

lemma green_pack: "green (pack (ucast r) (ucast g) (ucast b)) = ucast g" for r g b :: "8 word"
  unfolding green_def ff_mask
  apply (rule bit_word_eqI)
  subgoal for n
  using bit_imp_le_length [of r "n - 8"] bit_imp_le_length [of g "n"] bit_imp_le_length [of b "8 + n"] 
  by (auto simp: bit_simps bit_pack)
  done

lemma blue_pack: "blue (pack (ucast r) (ucast g) (ucast b)) = ucast b" for r g b :: "8 word"
  unfolding blue_def ff_mask
  apply (rule bit_word_eqI)
  subgoal for n
  using bit_imp_le_length [of r "n - 16"] bit_imp_le_length [of g "n - 8"] bit_imp_le_length [of b "n"] 
  by (auto simp: bit_simps bit_pack)
  done

section \<open>Indices as natural numbers\<close>

lemma sint_of_nat32: "n < 2 ^ 31 \<Longrightarrow> sint (of_nat n :: jint) = int n"
  by (simp add: signed_of_nat signed_take_bit_int_eq_self)

lemma load_of_nat:
  "n < length a \<Longrightarrow> length a < 2 ^ 31 \<Longrightarrow> load a (of_nat n) = Inr (a ! n)"
  by (simp add: load_def sint_of_nat32)

lemma store_of_nat:
  "n < length a \<Longrightarrow> length a < 2 ^ 31 \<Longrightarrow> store a (of_nat n) w = Inr (a[n := w])"
  by (simp add: store_def sint_of_nat32)

lemma sless_of_nat:
  "m < 2 ^ 31 \<Longrightarrow> n < 2 ^ 31 \<Longrightarrow> ((of_nat m :: jint) <s of_nat n) = (m < n)"
  by (simp add: word_sless_alt sint_of_nat32)

lemma and1_of_nat: "((of_nat n :: jint) AND 1 = 0) = even n"
  by (simp add: and_one_eq even_iff_mod_2_eq_zero [symmetric])

lemma shift1_of_nat:
  "n < 2 ^ 31 \<Longrightarrow> signed_drop_bit 1 (of_nat n :: jint) = of_nat (n div 2)"
proof (rule signed_word_eqI)
  assume n: "n < 2 ^ 31"
  then have "n div 2 < 2 ^ 31" by simp
  then show "sint (signed_drop_bit 1 (of_nat n :: jint)) = sint (of_nat (n div 2) :: jint)"
    using n by (simp add: sint_signed_drop_bit_eq sint_of_nat32 drop_bit_eq_div)
qed

lemma update_next:
  "n < length out0 \<Longrightarrow>
   (map f [0..<n] @ drop n out0)[n := f n] = map f [0..<Suc n] @ drop (Suc n) out0"
  by (simp add: list_update_append upd_conv_take_nth_drop Cons_nth_drop_Suc [symmetric])

lemma pixel_index: "I < H \<Longrightarrow> X < W \<Longrightarrow> I * W + X < W * H" for I H X W :: nat
proof -
  assume a: "I < H" "X < W"
  then have "I * W + X < Suc I * W" by simp
  also have "\<dots> \<le> H * W" using a by (intro mult_le_mono1) simp
  finally show ?thesis by (simp add: mult.commute)
qed

lemma pixel_step_even:
  assumes "even X" and "yp s = of_nat n" and "uvp s = of_nat c"
    and "n < length yuv" and "c + 1 < length yuv" and "length yuv < 2 ^ 31"
    and "n < length (rgb s)" and "length (rgb s) < 2 ^ 31"
  shows "pixel_step yuv (of_nat X) s =
    Inr (s\<lparr>v := chroma (yuv ! c), u := chroma (yuv ! (c + 1)), uvp := of_nat (c + 2),
           rgb := (rgb s)[n := argb (luma (yuv ! n)) (chroma (yuv ! (c + 1))) (chroma (yuv ! c))],
           yp := of_nat (n + 1)\<rparr>)"
proof -
  have c: "c < length yuv" using assms by simp
  have "(of_nat c + 1 :: jint) = of_nat (c + 1)" by simp
  then have l1: "load yuv (of_nat c + 1) = Inr (yuv ! (c + 1))"
    using load_of_nat [of "c + 1" yuv] assms by (simp only:)
  have f: "fetch_uv yuv (of_nat X) s =
      Inr (s\<lparr>v := chroma (yuv ! c), u := chroma (yuv ! (c + 1)), uvp := of_nat (c + 2)\<rparr>)"
    using assms c by (simp add: fetch_uv_def and1_of_nat load_of_nat l1)
  show ?thesis
    using assms by (simp add: pixel_step_def f load_of_nat store_of_nat)
qed

lemma pixel_step_odd:
  assumes "odd X" and "yp s = of_nat n"
    and "n < length yuv" and "length yuv < 2 ^ 31"
    and "n < length (rgb s)" and "length (rgb s) < 2 ^ 31"
  shows "pixel_step yuv (of_nat X) s =
    Inr (s\<lparr>rgb := (rgb s)[n := argb (luma (yuv ! n)) (u s) (v s)], yp := of_nat (n + 1)\<rparr>)"
proof -
  have f: "fetch_uv yuv (of_nat X) s = Inr s"
    using assms by (simp add: fetch_uv_def and1_of_nat)
  show ?thesis
    using assms by (simp add: pixel_step_def f load_of_nat store_of_nat)
qed

section \<open>The loops\<close>

lemma uv_offset_at:
  "X < W \<Longrightarrow> uv_offset W H (I * W + X) = W * H + (I div 2) * W + 2 * (X div 2)"
  by (simp add: uv_offset_def)

lemma chroma_index:
  fixes W H I X :: nat
  assumes "I < H" and "X < W"
  shows "(I div 2) * W + 2 * (X div 2) + 2 \<le> ((H - 1) div 2) * W + 2 * ((W + 1) div 2)"
proof -
  have "I div 2 \<le> (H - 1) div 2" using assms by (intro div_le_mono) simp
  then have "(I div 2) * W \<le> ((H - 1) div 2) * W" by (rule mult_le_mono1)
  moreover have "2 * (X div 2) + 2 \<le> 2 * ((W + 1) div 2)" using assms by presburger
  ultimately show ?thesis by linarith
qed

lemma row_loop_correct:
  fixes W H I :: nat
  assumes out0: "W * H \<le> length out0" "length out0 < 2 ^ 31"
    and yuv: "W * H + ((H - 1) div 2) * W + 2 * ((W + 1) div 2) \<le> length yuv"
      "length yuv < 2 ^ 31"
    and I: "I < H"
  shows "X \<le> W \<Longrightarrow> yp s = of_nat (I * W + X) \<Longrightarrow>
     uvp s = of_nat (W * H + (I div 2) * W + 2 * ((X + 1) div 2)) \<Longrightarrow>
     (odd X \<Longrightarrow> v s = chroma (yuv ! (W * H + (I div 2) * W + (X - 1))) \<and>
                u s = chroma (yuv ! (W * H + (I div 2) * W + X))) \<Longrightarrow>
     rgb s = map (pixel_of yuv W H) [0..<I * W + X] @ drop (I * W + X) out0 \<Longrightarrow>
     \<exists>s'. row_loop yuv (of_nat W) (of_nat X) s = Inr s' \<and> yp s' = of_nat (I * W + W) \<and>
          rgb s' = map (pixel_of yuv W H) [0..<I * W + W] @ drop (I * W + W) out0"
proof (induction "W - X" arbitrary: X s)
  case 0
  then have "X = W" by simp
  moreover have "\<not> ((of_nat W :: jint) <s of_nat W)" by (simp add: word_sless_alt)
  ultimately show ?case
    using "0.prems" by (subst row_loop.simps) simp
next
  case (Suc d)
  let ?n = "I * W + X"
  let ?base = "W * H + (I div 2) * W"
  let ?pix = "pixel_of yuv W H"
  from Suc.hyps have X: "X < W" by simp
  have n: "?n < W * H" using I X by (rule pixel_index)
  have Wpos: "0 < W" using X by simp
  have "W \<le> W * H" using I by (cases H) simp_all
  then have W31: "W < 2 ^ 31"
    by (rule le_less_trans [OF le_trans [OF _ out0(1)] out0(2)])
  then have X31: "X < 2 ^ 31" using X by simp
  have nyuv: "?n < length yuv" using n yuv by simp
  have nout: "?n < length out0" using n out0 by simp
  have len: "length (rgb s) = length out0" using Suc.prems(5) nout by simp
  have cond: "(of_nat X :: jint) <s of_nat W" using X X31 W31 by (simp add: sless_of_nat)
  have pix: "?pix ?n = argb (luma (yuv ! ?n)) (chroma (yuv ! (?base + 2 * (X div 2) + 1)))
      (chroma (yuv ! (?base + 2 * (X div 2))))"
    using X by (simp add: pixel_of_def uv_offset_at)
  have cidx: "?base + 2 * (X div 2) + 1 < length yuv"
    using chroma_index [OF I X] yuv by simp
  obtain s1 where step: "pixel_step yuv (of_nat X) s = Inr s1"
    and yp1: "yp s1 = of_nat (I * W + Suc X)"
    and uvp1: "uvp s1 = of_nat (?base + 2 * ((Suc X + 1) div 2))"
    and uv1: "odd (Suc X) \<Longrightarrow> v s1 = chroma (yuv ! (?base + (Suc X - 1))) \<and>
                u s1 = chroma (yuv ! (?base + Suc X))"
    and rgb1: "rgb s1 = (rgb s)[?n := ?pix ?n]"
  proof (cases "even X")
    case True
    then have c: "?base + 2 * ((X + 1) div 2) = ?base + X" "2 * (X div 2) = X" by presburger+
    have "pixel_step yuv (of_nat X) s =
      Inr (s\<lparr>v := chroma (yuv ! (?base + X)), u := chroma (yuv ! (?base + X + 1)),
             uvp := of_nat (?base + X + 2),
             rgb := (rgb s)[?n := argb (luma (yuv ! ?n)) (chroma (yuv ! (?base + X + 1)))
                      (chroma (yuv ! (?base + X)))],
             yp := of_nat (?n + 1)\<rparr>)"
      using True Suc.prems(2,3) nyuv cidx yuv(2) nout out0(2) len c
      by (intro pixel_step_even) simp_all
    moreover have "?base + 2 * ((Suc X + 1) div 2) = ?base + X + 2" using True by presburger
    ultimately show ?thesis
      using that [of "s\<lparr>v := chroma (yuv ! (?base + X)), u := chroma (yuv ! (?base + X + 1)),
             uvp := of_nat (?base + X + 2),
             rgb := (rgb s)[?n := argb (luma (yuv ! ?n)) (chroma (yuv ! (?base + X + 1)))
                      (chroma (yuv ! (?base + X)))],
             yp := of_nat (?n + 1)\<rparr>"] pix c
      by simp
  next
    case False
    then have c: "2 * (X div 2) + 1 = X" "2 * (X div 2) = X - 1"
      "?base + 2 * ((Suc X + 1) div 2) = ?base + 2 * ((X + 1) div 2)" by presburger+
    have "pixel_step yuv (of_nat X) s =
      Inr (s\<lparr>rgb := (rgb s)[?n := argb (luma (yuv ! ?n)) (u s) (v s)], yp := of_nat (?n + 1)\<rparr>)"
      using False Suc.prems(2) nyuv yuv(2) nout out0(2) len
      by (intro pixel_step_odd) simp_all
    moreover have "?pix ?n = argb (luma (yuv ! ?n)) (u s) (v s)"
      using Suc.prems(4) [OF False] pix c by (simp add: add.assoc)
    ultimately show ?thesis
      using that [of "s\<lparr>rgb := (rgb s)[?n := argb (luma (yuv ! ?n)) (u s) (v s)],
                       yp := of_nat (?n + 1)\<rparr>"] Suc.prems(3) c False
      by simp
  qed
  have rgb1': "rgb s1 = map ?pix [0..<I * W + Suc X] @ drop (I * W + Suc X) out0"
    using rgb1 Suc.prems(5) update_next [OF nout, of ?pix] by simp
  have "\<exists>s'. row_loop yuv (of_nat W) (of_nat (Suc X)) s1 = Inr s' \<and> yp s' = of_nat (I * W + W) \<and>
          rgb s' = map ?pix [0..<I * W + W] @ drop (I * W + W) out0"
    using Suc.hyps(2) X yp1 uvp1 uv1 rgb1'
    by (intro Suc.hyps(1)) simp_all
  moreover have "row_loop yuv (of_nat W) (of_nat X) s = row_loop yuv (of_nat W) (of_nat (Suc X)) s1"
    using cond step by (subst row_loop.simps) (simp add: add.commute)
  ultimately show ?case by simp
qed

lemma frame_loop_correct:
  fixes W H :: nat
  assumes out0: "W * H \<le> length out0" "length out0 < 2 ^ 31"
    and yuv: "W * H + ((H - 1) div 2) * W + 2 * ((W + 1) div 2) \<le> length yuv"
      "length yuv < 2 ^ 31"
    and W: "0 < W"
  shows "I \<le> H \<Longrightarrow> yp s = of_nat (I * W) \<Longrightarrow>
     rgb s = map (pixel_of yuv W H) [0..<I * W] @ drop (I * W) out0 \<Longrightarrow>
     \<exists>s'. frame_loop yuv (of_nat W) (of_nat H) (of_nat (W * H)) (of_nat I) s = Inr s' \<and>
          rgb s' = map (pixel_of yuv W H) [0..<H * W] @ drop (H * W) out0"
proof (induction "H - I" arbitrary: I s)
  case 0
  then have "I = H" by simp
  moreover have "\<not> ((of_nat H :: jint) <s of_nat H)" by (simp add: word_sless_alt)
  ultimately show ?case
    using "0.prems" by (subst frame_loop.simps) simp
next
  case (Suc d)
  let ?pix = "pixel_of yuv W H"
  let ?s0 = "s\<lparr>uvp := of_nat (W * H) + signed_drop_bit 1 (of_nat I) * of_nat W, u := 0, v := 0\<rparr>"
  from Suc.hyps have I: "I < H" by simp
  have "H \<le> W * H" using W by (cases W) simp_all
  then have H31: "H < 2 ^ 31"
    by (rule le_less_trans [OF le_trans [OF _ out0(1)] out0(2)])
  then have I31: "I < 2 ^ 31" using I by simp
  have cond: "(of_nat I :: jint) <s of_nat H" using I I31 H31 by (simp add: sless_of_nat)
  have uvp0: "uvp ?s0 = of_nat (W * H + (I div 2) * W + 2 * ((0 + 1) div 2))"
    using shift1_of_nat [of I] I31 by simp
  obtain s1 where row: "row_loop yuv (of_nat W) (of_nat 0) ?s0 = Inr s1"
    and yp1: "yp s1 = of_nat (I * W + W)"
    and rgb1: "rgb s1 = map ?pix [0..<I * W + W] @ drop (I * W + W) out0"
    using row_loop_correct [OF out0 yuv I, of 0 ?s0] Suc.prems(2,3) uvp0
    by auto
  have "\<exists>s'. frame_loop yuv (of_nat W) (of_nat H) (of_nat (W * H)) (of_nat (Suc I)) s1 = Inr s' \<and>
          rgb s' = map ?pix [0..<H * W] @ drop (H * W) out0"
    using Suc.hyps(2) I yp1 rgb1
    by (intro Suc.hyps(1)) (simp_all add: add.commute)
  moreover have "frame_loop yuv (of_nat W) (of_nat H) (of_nat (W * H)) (of_nat I) s =
      frame_loop yuv (of_nat W) (of_nat H) (of_nat (W * H)) (of_nat (Suc I)) s1"
    using cond row by (subst frame_loop.simps) (simp add: add.commute)
  ultimately show ?case by simp
qed

lemma convert_in_bounds:
  assumes "in_bounds yuv width height rgbOut"
  shows "nativeYUV420toARGB8888 yuv width height rgbOut =
    Inr (map (pixel_of yuv (nat (sint width)) (nat (sint height)))
           [0..<nat (sint width) * nat (sint height)]
         @ drop (nat (sint width) * nat (sint height)) rgbOut)"
proof -
  let ?W = "nat (sint width)" and ?H = "nat (sint height)"
  have w: "width = of_nat ?W" and h: "height = of_nat ?H"
    using assms by (simp_all add: in_bounds_def)
  have b: "?W * ?H \<le> length rgbOut" "length rgbOut < 2 ^ 31"
      "?W * ?H + ((?H - 1) div 2) * ?W + 2 * ((?W + 1) div 2) \<le> length yuv"
      "length yuv < 2 ^ 31" "0 < ?W"
    using assms by (simp_all add: in_bounds_def Let_def)
  let ?s = "\<lparr>yp = 0, uvp = 0, u = 0, v = 0, rgb = rgbOut\<rparr>"
  obtain s' where "frame_loop yuv (of_nat ?W) (of_nat ?H) (of_nat (?W * ?H)) (of_nat 0) ?s = Inr s'"
    and "rgb s' = map (pixel_of yuv ?W ?H) [0..<?H * ?W] @ drop (?H * ?W) rgbOut"
    using frame_loop_correct [OF b, of 0 ?s] by auto
  moreover have "width * height = of_nat (?W * ?H)"
    using w h by (metis of_nat_mult)
  ultimately show ?thesis
    unfolding Java_com_mrousavy_camera_core_FaceDetectionRecorder_nativeYUV420toARGB8888_def
    using w h by (simp add: mult.commute)
qed

lemma valid_frame_in_bounds:
  assumes "valid_frame yuv width height rgbOut"
  shows "in_bounds yuv width height rgbOut"
proof -
  let ?W = "nat (sint width)" and ?H = "nat (sint height)"
  from assms have pos: "0 < sint width" "0 < sint height"
    and ev: "even (sint width)" "even (sint height)"
    and ly: "int (length yuv) = sint width * sint height * 3 div 2"
    and lr: "int (length rgbOut) = sint width * sint height"
    and l31: "length yuv < 2 ^ 31"
    by (simp_all add: valid_frame_def)
  from pos ev have "even ?W" "even ?H" by (simp_all add: even_nat_iff)
  then obtain a b where a: "?W = 2 * a" and b: "?H = 2 * b" by (auto elim!: evenE)
  from pos a b have ab: "0 < a" "0 < b" by simp_all
  have sw: "sint width = 2 * int a" "sint height = 2 * int b" using pos a b by arith+
  have "int (length rgbOut) = int (4 * a * b)"
    unfolding lr sw by simp
  then have lr': "length rgbOut = 4 * a * b" by (simp only: of_nat_eq_iff)
  have "int (length yuv) = int (6 * a * b)"
    unfolding ly sw by simp
  then have ly': "length yuv = 6 * a * b" by (simp only: of_nat_eq_iff)
  have h1: "(2 * b - 1) div 2 = b - 1" using ab by presburger
  have w1: "(2 * a + 1) div 2 = a" by presburger
  have "(b - 1) * (2 * a) + 2 * a = 2 * a * b"
    using ab by (cases b) (simp_all add: algebra_simps)
  then have "2 * a * (2 * b) + ((2 * b - 1) div 2) * (2 * a) + 2 * ((2 * a + 1) div 2) = 6 * a * b"
    unfolding h1 w1 by simp
  moreover have "length rgbOut \<le> length yuv" unfolding lr' ly' by simp
  ultimately show ?thesis
    using pos l31 unfolding in_bounds_def Let_def a b lr' ly' by (simp add: mult.commute)
qed

section \<open>Consequences for valid frames\<close>

lemma valid_frame_size:
  assumes "valid_frame yuv width height rgbOut"
  shows "length rgbOut = nat (sint width) * nat (sint height)"
proof -
  from assms have "0 < sint width" "0 < sint height"
    and "int (length rgbOut) = sint width * sint height"
    by (simp_all add: valid_frame_def)
  then show ?thesis by (simp add: nat_mult_distrib [symmetric])
qed

lemma convert_valid:
  assumes "valid_frame yuv width height rgbOut"
  shows "nativeYUV420toARGB8888 yuv width height rgbOut =
    Inr (map (pixel_of yuv (nat (sint width)) (nat (sint height)))
           [0..<nat (sint width) * nat (sint height)])"
  using convert_in_bounds [OF valid_frame_in_bounds [OF assms]] valid_frame_size [OF assms]
  by simp

lemma alpha_argb: "alpha (argb y cu cv) = 0xFF"
  by (simp add: argb_def channel_def alpha_pack)

lemma alpha_argb_signed: "signed_drop_bit 24 (argb y cu cv) AND 0xFF = 0xFF"
  by (simp add: argb_def channel_def alpha_pack_signed)

lemma block_offsets:
  fixes W H c r :: nat
  assumes "c < W div 2"
  shows "uv_offset W H ((2 * r) * W + 2 * c) = W * H + r * W + 2 * c"
    and "uv_offset W H ((2 * r) * W + (2 * c + 1)) = W * H + r * W + 2 * c"
    and "uv_offset W H ((2 * r + 1) * W + 2 * c) = W * H + r * W + 2 * c"
    and "uv_offset W H ((2 * r + 1) * W + (2 * c + 1)) = W * H + r * W + 2 * c"
proof -
  have x: "2 * c < W" "2 * c + 1 < W" using assms by presburger+
  have d: "(2 * c + 1) div 2 = c" "(2 * r + 1) div 2 = r" by presburger+
  show "uv_offset W H ((2 * r) * W + 2 * c) = W * H + r * W + 2 * c"
    using uv_offset_at [OF x(1), of H "2 * r"] by simp
  show "uv_offset W H ((2 * r) * W + (2 * c + 1)) = W * H + r * W + 2 * c"
    using uv_offset_at [OF x(2), of H "2 * r"] d by simp
  show "uv_offset W H ((2 * r + 1) * W + 2 * c) = W * H + r * W + 2 * c"
    using uv_offset_at [OF x(1), of H "2 * r + 1"] d by simp
  show "uv_offset W H ((2 * r + 1) * W + (2 * c + 1)) = W * H + r * W + 2 * c"
    using uv_offset_at [OF x(2), of H "2 * r + 1"] d by simp
qed

lemma block_indices:
  fixes W H c r :: nat
  assumes "c < W div 2" and "r < H div 2"
  shows "(2 * r) * W + 2 * c < W * H"
    and "(2 * r) * W + (2 * c + 1) < W * H"
    and "(2 * r + 1) * W + 2 * c < W * H"
    and "(2 * r + 1) * W + (2 * c + 1) < W * H"
proof -
  have x: "2 * c < W" "2 * c + 1 < W" using assms by presburger+
  have y: "2 * r < H" "2 * r + 1 < H" using assms by presburger+
  show "(2 * r) * W + 2 * c < W * H" using y(1) x(1) by (rule pixel_index)
  show "(2 * r) * W + (2 * c + 1) < W * H" using y(1) x(2) by (rule pixel_index)
  show "(2 * r + 1) * W + 2 * c < W * H" using y(2) x(1) by (rule pixel_index)
  show "(2 * r + 1) * W + (2 * c + 1) < W * H" using y(2) x(2) by (rule pixel_index)
qed

lemma uv_offset_bounds:
  assumes "in_bounds yuv width height rgbOut"
    and "k < nat (sint width) * nat (sint height)"
  shows "nat (sint width) * nat (sint height)
      \<le> uv_offset (nat (sint width)) (nat (sint height)) k"
    and "uv_offset (nat (sint width)) (nat (sint height)) k + 1 < length yuv"
proof -
  let ?W = "nat (sint width)" and ?H = "nat (sint height)"
  from assms(1) have W: "0 < ?W"
    and b: "?W * ?H + ((?H - 1) div 2) * ?W + 2 * ((?W + 1) div 2) \<le> length yuv"
    by (simp_all add: in_bounds_def Let_def)
  have X: "k mod ?W < ?W" using W by simp
  have "k < ?H * ?W" using assms(2) by (simp add: mult.commute)
  then have I: "k div ?W < ?H" using W by (simp add: less_mult_imp_div_less)
  show "?W * ?H \<le> uv_offset ?W ?H k" by (simp add: uv_offset_def)
  show "uv_offset ?W ?H k + 1 < length yuv"
    using chroma_index [OF I X] b unfolding uv_offset_def by linarith
qed

subsection \<open>Neutral chroma\<close>

lemma chroma_neutral: "chroma 128 = 0"
proof -
  have "sint (chroma 128) = sint (0 :: jint)" by (simp add: sint_chroma)
  then show ?thesis by (rule signed_word_eqI)
qed

lemma argb_gray:
  "argb y 0 0 = pack (channel (y1192 y)) (channel (y1192 y)) (channel (y1192 y))"
  by (simp add: argb_def r_pre_def g_pre_def b_pre_def)

lemma channels_gray:
  "red (argb y 0 0) = channel (y1192 y)"
  "green (argb y 0 0) = channel (y1192 y)"
  "blue (argb y 0 0) = channel (y1192 y)"
  by (simp_all add: argb_gray channel_ucast red_pack green_pack blue_pack)

lemma gray_level_mono:
  assumes "uint a \<le> uint b"
  shows "uint (channel (y1192 (luma a))) \<le> uint (channel (y1192 (luma b)))"
proof -
  have u: "uint (channel (y1192 (luma yb))) = spec_channel (1192 * max 0 (uint yb - 16))"
    for yb
    using channel_range [of "y1192 (luma yb)"]
    by (simp add: uint_eq_sint sint_channel sint_y1192 sint_luma)
  have "1192 * max 0 (uint a - 16) \<le> 1192 * max 0 (uint b - 16)"
    using assms by simp
  then have "(1192 * max 0 (uint a - 16)) div 1024 \<le> (1192 * max 0 (uint b - 16)) div 1024"
    by (rule zdiv_mono1) simp
  moreover have "x \<le> y \<Longrightarrow> max 0 (min 255 (x + 2)) \<le> max 0 (min 255 (y + 2))"
    for x y :: int by arith
  ultimately show ?thesis
    unfolding u spec_channel_def spec_clamp_max_min drop_bit_eq_div by simp
qed

lemma neutral_pixel:
  assumes "valid_frame yuv width height rgbOut"
    and "list_all (\<lambda>b. b = 128) (drop (nat (sint width) * nat (sint height)) yuv)"
    and "k < nat (sint width) * nat (sint height)"
  shows "pixel_of yuv (nat (sint width)) (nat (sint height)) k = argb (luma (yuv ! k)) 0 0"
proof -
  let ?W = "nat (sint width)" and ?H = "nat (sint height)"
  let ?o = "uv_offset ?W ?H k"
  note ib = valid_frame_in_bounds [OF assms(1)]
  have lo: "?W * ?H \<le> ?o" and hi: "?o + 1 < length yuv"
    using uv_offset_bounds [OF ib assms(3)] by simp_all
  have n: "\<forall>m. ?W * ?H \<le> m \<and> m < length yuv \<longrightarrow> yuv ! m = 128"
  proof (intro allI impI)
    fix m assume m: "?W * ?H \<le> m \<and> m < length yuv"
    then have "m - ?W * ?H < length yuv - ?W * ?H" by arith
    then have "m - ?W * ?H < length (drop (?W * ?H) yuv)" by simp
    with assms(2) have "drop (?W * ?H) yuv ! (m - ?W * ?H) = 128"
      unfolding list_all_length by blast
    then show "yuv ! m = 128" using m by simp
  qed
  have "yuv ! ?o = 128" "yuv ! (?o + 1) = 128"
    using n lo hi by simp_all
  then show ?thesis by (simp add: pixel_of_def chroma_neutral)
qed

lemma black_pixel: "argb (luma 16) 0 0 = 0xFF020202"
  by (simp add: argb_def luma_def r_pre_def g_pre_def b_pre_def y1192_def channel_def
      clamp_def pack_def word_sless_alt)

lemma luma_below_pedestal: "luma 0 = 0" "luma 16 = 0"
  by (simp_all add: luma_def word_sless_alt)

subsection \<open>Dimensions that are not positive\<close>

lemma row_loop_no_width: "\<not> 0 <s width \<Longrightarrow> row_loop yuv width 0 s = Inr s"
  by (subst row_loop.simps) simp

lemma frame_loop_no_width:
  "\<not> 0 <s width \<Longrightarrow>
   \<exists>s'. frame_loop yuv width height frameSize i s = Inr s' \<and> rgb s' = rgb s"
proof (induction yuv width height frameSize i s rule: frame_loop.induct)
  case (1 yuv width height frameSize i s)
  show ?case
  proof (cases "i <s height")
    case False
    then show ?thesis by (subst frame_loop.simps) simp
  next
    case True
    let ?s0 = "s\<lparr>uvp := frameSize + signed_drop_bit 1 i * width, u := 0, v := 0\<rparr>"
    have r: "row_loop yuv width 0 ?s0 = Inr ?s0"
      using "1.prems" by (rule row_loop_no_width)
    obtain s' where "frame_loop yuv width height frameSize (i + 1) ?s0 = Inr s'"
      and "rgb s' = rgb ?s0"
      using "1.IH" [OF True r "1.prems"] by blast
    then show ?thesis
      using True r by (subst frame_loop.simps) simp
  qed
qed

lemma convert_not_positive:
  assumes "\<not> (0 <s width \<and> 0 <s height)"
  shows "nativeYUV420toARGB8888 yuv width height rgbOut = Inr rgbOut"
proof (cases "0 <s height")
  case False
  then show ?thesis
    unfolding Java_com_mrousavy_camera_core_FaceDetectionRecorder_nativeYUV420toARGB8888_def
    by (subst frame_loop.simps) simp
next
  case True
  with assms have w: "\<not> 0 <s width" by simp
  obtain s' where "frame_loop yuv width height (width * height) 0
      \<lparr>yp = 0, uvp = 0, u = 0, v = 0, rgb = rgbOut\<rparr> = Inr s'" and "rgb s' = rgbOut"
    using frame_loop_no_width [OF w, of yuv height "width * height" 0
        "\<lparr>yp = 0, uvp = 0, u = 0, v = 0, rgb = rgbOut\<rparr>"] by auto
  then show ?thesis
    unfolding Java_com_mrousavy_camera_core_FaceDetectionRecorder_nativeYUV420toARGB8888_def
    by simp
qed

section \<open>The claims\<close>

subsection \<open>Per-pixel arithmetic\<close>

text \<open>
  Claim C1. For every pixel \<open>k\<close> of a valid frame, with \<open>Y\<close> its luma byte and \<open>V\<close>,
  \<open>U\<close> the two bytes of its chroma pair, and with \<open>y' = max(0, Y - 16)\<close>,
  \<open>u' = U - 128\<close>, \<open>v' = V - 128\<close>: the converter returns, and the three pre-clamp values
  it computes are \<open>1192 y' + 1634 v'\<close>, \<open>1192 y' - 833 v' - 400 u'\<close> and
  \<open>1192 y' + 2066 u'\<close>; the word it writes at \<open>k\<close> is
  \<open>0xFF000000 | (R<<16) | (G<<8) | B\<close>, where each channel is the pre-clamp value
  shifted right arithmetically by 10 bits, plus 2, clamped to \<open>0..255\<close>.
\<close>

theorem converter_pixel_arithmetic:
  assumes "valid_frame yuv width height rgbOut"
    and "k < nat (sint width) * nat (sint height)"
  shows "\<exists>out. nativeYUV420toARGB8888 yuv width height rgbOut = Inr out \<and>
    (let yb = yuv ! k;
         vb = yuv ! uv_offset (nat (sint width)) (nat (sint height)) k;
         ub = yuv ! (uv_offset (nat (sint width)) (nat (sint height)) k + 1);
         y' = max 0 (uint yb - 16); u' = uint ub - 128; v' = uint vb - 128
     in out ! k = argb (luma yb) (chroma ub) (chroma vb) \<and>
        sint (luma yb) = y' \<and> sint (chroma ub) = u' \<and> sint (chroma vb) = v' \<and>
        sint (r_pre (luma yb) (chroma vb)) = spec_R_pre y' v' \<and>
        sint (g_pre (luma yb) (chroma ub) (chroma vb)) = spec_G_pre y' u' v' \<and>
        sint (b_pre (luma yb) (chroma ub)) = spec_B_pre y' u' \<and>
        uint (out ! k) = spec_pixel (uint yb) (uint ub) (uint vb))"
  using assms(2)
  by (simp add: convert_valid [OF assms(1)] pixel_of_def uint_argb Let_def sint_luma
      sint_chroma sint_r_pre sint_g_pre sint_b_pre spec_R_pre_def spec_G_pre_def
      spec_B_pre_def)

theorem converter_pixel_arithmetic_witness:
  "valid_frame [81, 81, 81, 81, 240, 90] 2 2 [0, 0, 0, 0] \<and>
   (\<exists>out. nativeYUV420toARGB8888 [81, 81, 81, 81, 240, 90] 2 2 [0, 0, 0, 0] = Inr out \<and>
      uint (out ! 3) = spec_pixel 81 90 240 \<and> spec_pixel 81 90 240 = 0xFFFF0100)"
proof -
  have h: "valid_frame [81, 81, 81, 81, 240, 90] 2 2 [0, 0, 0, 0]"
    by (simp add: valid_frame_def)
  have k: "(3::nat) < nat (sint (2 :: jint)) * nat (sint (2 :: jint))" by simp
  have "spec_pixel 81 90 240 = 0xFFFF0100"
    by (simp add: spec_pixel_def spec_channel_def spec_clamp_def spec_R_pre_def
        spec_G_pre_def spec_B_pre_def drop_bit_eq_div push_bit_eq_mult)
  then show ?thesis
    using h converter_pixel_arithmetic [OF h k] by (auto simp: uv_offset_def Let_def)
qed

subsection \<open>Chroma sharing\<close>

text \<open>
  Claim C2. For every valid frame and every chroma block \<open>(c, r)\<close>, the converter
  returns, and the four output pixels at the luma positions \<open>(2c, 2r)\<close>, \<open>(2c+1, 2r)\<close>,
  \<open>(2c, 2r+1)\<close> and \<open>(2c+1, 2r+1)\<close> are computed from their own luma byte and from one
  chroma pair: the \<open>V\<close> sample is the byte at offset \<open>width * height + r * width + 2c\<close>
  and the \<open>U\<close> sample the byte after it.
\<close>

theorem chroma_shared_by_block:
  assumes "valid_frame yuv width height rgbOut"
    and "c < nat (sint width) div 2" and "r < nat (sint height) div 2"
  shows "\<exists>out. nativeYUV420toARGB8888 yuv width height rgbOut = Inr out \<and>
    (let W = nat (sint width); H = nat (sint height);
         vb = yuv ! (W * H + r * W + 2 * c);
         ub = yuv ! (W * H + r * W + 2 * c + 1);
         px = (\<lambda>x y. argb (luma (yuv ! (y * W + x))) (chroma ub) (chroma vb))
     in out ! ((2 * r) * W + 2 * c) = px (2 * c) (2 * r) \<and>
        out ! ((2 * r) * W + (2 * c + 1)) = px (2 * c + 1) (2 * r) \<and>
        out ! ((2 * r + 1) * W + 2 * c) = px (2 * c) (2 * r + 1) \<and>
        out ! ((2 * r + 1) * W + (2 * c + 1)) = px (2 * c + 1) (2 * r + 1))"
  using block_indices [OF assms(2,3)] block_offsets [OF assms(2), of "nat (sint height)" r]
  by (simp add: convert_valid [OF assms(1)] pixel_of_def Let_def)

theorem chroma_shared_by_block_witness:
  "valid_frame [16, 235, 235, 16, 240, 90] 2 2 [0, 0, 0, 0] \<and>
   (\<exists>out. nativeYUV420toARGB8888 [16, 235, 235, 16, 240, 90] 2 2 [0, 0, 0, 0] = Inr out \<and>
      out ! 0 = argb (luma 16) (chroma 90) (chroma 240) \<and>
      out ! 1 = argb (luma 235) (chroma 90) (chroma 240) \<and>
      out ! 2 = argb (luma 235) (chroma 90) (chroma 240) \<and>
      out ! 3 = argb (luma 16) (chroma 90) (chroma 240))"
proof -
  have h: "valid_frame [16, 235, 235, 16, 240, 90] 2 2 [0, 0, 0, 0]"
    by (simp add: valid_frame_def)
  have c: "(0::nat) < nat (sint (2 :: jint)) div 2" by simp
  show ?thesis
    using h chroma_shared_by_block [OF h c c] by (simp add: Let_def)
qed

subsection \<open>The black frame\<close>

text \<open>
  Claim C3 fails as stated.
  The 2 x 2 frame \<open>[16,16,16,16, 128,128]\<close> is not converted to \<open>0xFF000000\<close>: every
  word is \<open>0xFF020202\<close>, and each colour channel is 2 away from 0, not within 1. With
  \<open>y' = u' = v' = 0\<close> every pre-clamp value is 0, and line 40 gives
  \<open>clamp((0 >> 10) + 2) = 2\<close>.
\<close>

theorem black_frame_counterexample:
  "nativeYUV420toARGB8888 [16, 16, 16, 16, 128, 128] 2 2 [0, 0, 0, 0] =
     Inr [0xFF020202, 0xFF020202, 0xFF020202, 0xFF020202] \<and>
   nativeYUV420toARGB8888 [16, 16, 16, 16, 128, 128] 2 2 [0, 0, 0, 0] \<noteq>
     Inr [0xFF000000, 0xFF000000, 0xFF000000, 0xFF000000] \<and>
   uint (red 0xFF020202) - uint (red 0xFF000000) = 2 \<and>
   uint (green 0xFF020202) - uint (green 0xFF000000) = 2 \<and>
   uint (blue 0xFF020202) - uint (blue 0xFF000000) = 2"
proof -
  have "nativeYUV420toARGB8888 [16, 16, 16, 16, 128, 128] 2 2 [0, 0, 0, 0] =
     Inr [0xFF020202, 0xFF020202, 0xFF020202, 0xFF020202]"
    by code_simp
  moreover have "uint (red 0xFF020202) = 2" "uint (red 0xFF000000) = 0"
    "uint (green 0xFF020202) = 2" "uint (green 0xFF000000) = 0"
    "uint (blue 0xFF020202) = 2" "uint (blue 0xFF000000) = 0"
    by (simp_all add: red_def green_def blue_def drop_bit_eq_div)
  ultimately show ?thesis by simp
qed

text \<open>
  Claim C3, amended. For the 2 x 2 frame \<open>[16,16,16,16, 128,128]\<close>, whatever the output
  array held before, every output word equals \<open>0xFF020202\<close>; more generally, every
  valid frame whose luma bytes are all 16 and whose chroma bytes are all 128 is
  converted to \<open>0xFF020202\<close> at every pixel.
\<close>

theorem black_frame:
  "nativeYUV420toARGB8888 [16, 16, 16, 16, 128, 128] 2 2 [a, b, c, d] =
     Inr [0xFF020202, 0xFF020202, 0xFF020202, 0xFF020202] \<and>
   (valid_frame yuv width height rgbOut \<and>
    list_all (\<lambda>b. b = 16) (take (nat (sint width) * nat (sint height)) yuv) \<and>
    list_all (\<lambda>b. b = 128) (drop (nat (sint width) * nat (sint height)) yuv) \<longrightarrow>
    nativeYUV420toARGB8888 yuv width height rgbOut =
      Inr (replicate (nat (sint width) * nat (sint height)) 0xFF020202))"
proof (intro conjI impI)
  show "valid_frame yuv width height rgbOut \<and>
    list_all (\<lambda>b. b = 16) (take (nat (sint width) * nat (sint height)) yuv) \<and>
    list_all (\<lambda>b. b = 128) (drop (nat (sint width) * nat (sint height)) yuv) \<Longrightarrow>
    nativeYUV420toARGB8888 yuv width height rgbOut =
      Inr (replicate (nat (sint width) * nat (sint height)) 0xFF020202)"
  proof -
    let ?n = "nat (sint width) * nat (sint height)"
    assume a: "valid_frame yuv width height rgbOut \<and>
      list_all (\<lambda>b. b = 16) (take ?n yuv) \<and> list_all (\<lambda>b. b = 128) (drop ?n yuv)"
    then have v: "valid_frame yuv width height rgbOut"
      and y: "list_all (\<lambda>b. b = 16) (take ?n yuv)"
      and c: "list_all (\<lambda>b. b = 128) (drop ?n yuv)" by simp_all
    have "?n \<le> length yuv"
      using valid_frame_in_bounds [OF v] by (simp add: in_bounds_def Let_def)
    then have lt: "length (take ?n yuv) = ?n" by simp
    have "take ?n yuv ! k = 16" if "k < ?n" for k
      using y that unfolding list_all_length lt by blast
    then have "yuv ! k = 16" if "k < ?n" for k
      using that by simp
    then have "pixel_of yuv (nat (sint width)) (nat (sint height)) k = 0xFF020202"
      if "k < ?n" for k
      using neutral_pixel [OF v c that] that by (simp add: black_pixel)
    then have "map (pixel_of yuv (nat (sint width)) (nat (sint height))) [0..<?n] =
        replicate ?n 0xFF020202"
      by (intro nth_equalityI) simp_all
    then show ?thesis by (simp add: convert_valid [OF v])
  qed
next
  have h: "valid_frame [16, 16, 16, 16, 128, 128] 2 2 [a, b, c, d]"
    by (simp add: valid_frame_def)
  show "nativeYUV420toARGB8888 [16, 16, 16, 16, 128, 128] 2 2 [a, b, c, d] =
     Inr [0xFF020202, 0xFF020202, 0xFF020202, 0xFF020202]"
    by (simp add: convert_valid [OF h] pixel_of_def uv_offset_def chroma_neutral black_pixel
        upt_conv_Cons)
qed

theorem black_frame_witness:
  "valid_frame [16, 16, 16, 16, 16, 16, 16, 16, 128, 128, 128, 128] 4 2
     [1, 2, 3, 4, 5, 6, 7, 8] \<and>
   nativeYUV420toARGB8888 [16, 16, 16, 16, 16, 16, 16, 16, 128, 128, 128, 128] 4 2
     [1, 2, 3, 4, 5, 6, 7, 8] = Inr (replicate 8 0xFF020202)"
proof -
  have h: "valid_frame [16, 16, 16, 16, 16, 16, 16, 16, 128, 128, 128, 128] 4 2
      [1, 2, 3, 4, 5, 6, 7, 8]"
    by (simp add: valid_frame_def)
  show ?thesis
    using h black_frame [of 0 0 0 0 "[16, 16, 16, 16, 16, 16, 16, 16, 128, 128, 128, 128]" 4 2
        "[1, 2, 3, 4, 5, 6, 7, 8]"]
    by simp
qed

subsection \<open>Alpha\<close>

text \<open>
  Claim C4. For every valid frame the converter returns \<open>width * height\<close> words, and
  the alpha byte of every one of them is \<open>0xFF\<close>: \<open>(w >> 24) & 0xFF = 0xFF\<close>, with the
  shift read as a logical one (\<open>alpha\<close>) or as the arithmetic one of a signed \<open>jint\<close>.
\<close>

theorem alpha_constant:
  assumes "valid_frame yuv width height rgbOut"
  shows "\<exists>out. nativeYUV420toARGB8888 yuv width height rgbOut = Inr out \<and>
    length out = nat (sint width) * nat (sint height) \<and>
    (\<forall>w \<in> set out. alpha w = 0xFF \<and> signed_drop_bit 24 w AND 0xFF = 0xFF)"
  by (auto simp: convert_valid [OF assms] pixel_of_def alpha_argb alpha_argb_signed)

theorem alpha_constant_witness:
  "valid_frame [81, 81, 81, 81, 240, 90] 2 2 [0, 0, 0, 0] \<and>
   (\<exists>out. nativeYUV420toARGB8888 [81, 81, 81, 81, 240, 90] 2 2 [0, 0, 0, 0] = Inr out \<and>
      length out = 4 \<and> list_all (\<lambda>w. alpha w = 0xFF) out)"
proof -
  have h: "valid_frame [81, 81, 81, 81, 240, 90] 2 2 [0, 0, 0, 0]"
    by (simp add: valid_frame_def)
  show ?thesis
    using h alpha_constant [OF h] by (auto simp: list_all_iff)
qed

subsection \<open>The clamp helper\<close>

text \<open>
  Claim C5. For every signed integer \<open>x\<close>, \<open>clamp\<close> returns \<open>x\<close> when
  \<open>0 \<le> x \<le> 255\<close>, \<open>0\<close> when \<open>x < 0\<close> and \<open>255\<close> when \<open>x > 255\<close>: it saturates at the
  two ends of the range and never wraps modulo 256.
\<close>

theorem clamp_saturates:
  "(0 \<le> sint x \<and> sint x \<le> 255 \<longrightarrow> uint (clamp x) = sint x) \<and>
   (sint x < 0 \<longrightarrow> clamp x = 0) \<and>
   (255 < sint x \<longrightarrow> clamp x = 255)"
  by (simp add: clamp_def word_sless_alt uint_ucast_down)

theorem clamp_saturates_witness:
  "uint (clamp 100) = 100 \<and> clamp (- 5) = 0 \<and> clamp 300 = 255"
  using clamp_saturates [of 100] clamp_saturates [of "- 5"] clamp_saturates [of 300]
  by simp

subsection \<open>The gray axis\<close>

text \<open>
  Claim C6. For every valid frame whose chroma bytes are all 128 and whose luma bytes
  all lie in \<open>16..235\<close>, the converter returns and every output word has
  \<open>R = G = B\<close> exactly; the common value is the one channel value
  \<open>clamp(((1192 * y') >> 10) + 2)\<close> of the pixel's luma, and it is monotonically
  non-decreasing in \<open>Y\<close>: between any two pixels of the frame, and as a function of
  the luma byte alone.
\<close>

theorem gray_axis:
  assumes "valid_frame yuv width height rgbOut"
    and "list_all (\<lambda>b. 16 \<le> uint b \<and> uint b \<le> 235)
           (take (nat (sint width) * nat (sint height)) yuv)"
    and "list_all (\<lambda>b. b = 128) (drop (nat (sint width) * nat (sint height)) yuv)"
  shows "\<exists>out. nativeYUV420toARGB8888 yuv width height rgbOut = Inr out \<and>
    length out = nat (sint width) * nat (sint height) \<and>
    (\<forall>k < nat (sint width) * nat (sint height).
       red (out ! k) = channel (y1192 (luma (yuv ! k))) \<and>
       green (out ! k) = red (out ! k) \<and> blue (out ! k) = red (out ! k)) \<and>
    (\<forall>j < nat (sint width) * nat (sint height).
     \<forall>k < nat (sint width) * nat (sint height).
       uint (yuv ! j) \<le> uint (yuv ! k) \<longrightarrow> uint (red (out ! j)) \<le> uint (red (out ! k))) \<and>
    (\<forall>a b. uint a \<le> uint b \<longrightarrow>
       uint (channel (y1192 (luma a))) \<le> uint (channel (y1192 (luma b))))"
  by (simp add: convert_valid [OF assms(1)] neutral_pixel [OF assms(1,3)] channels_gray
      gray_level_mono)

theorem gray_axis_witness:
  "valid_frame [16, 126, 235, 100, 128, 128] 2 2 [0, 0, 0, 0] \<and>
   (\<exists>out. nativeYUV420toARGB8888 [16, 126, 235, 100, 128, 128] 2 2 [0, 0, 0, 0] = Inr out \<and>
      length out = 4 \<and>
      green (out ! 1) = red (out ! 1) \<and> blue (out ! 1) = red (out ! 1) \<and>
      uint (red (out ! 0)) \<le> uint (red (out ! 3)) \<and>
      uint (red (out ! 3)) \<le> uint (red (out ! 1)) \<and>
      uint (red (out ! 1)) \<le> uint (red (out ! 2)))"
proof -
  have h: "valid_frame [16, 126, 235, 100, 128, 128] 2 2 [0, 0, 0, 0]"
    by (simp add: valid_frame_def)
  have l: "list_all (\<lambda>b. 16 \<le> uint b \<and> uint b \<le> 235)
      (take (nat (sint (2 :: jint)) * nat (sint (2 :: jint)))
         [16, 126, 235, 100, 128, 128 :: jbyte])"
    by simp
  have c: "list_all (\<lambda>b. b = 128)
      (drop (nat (sint (2 :: jint)) * nat (sint (2 :: jint)))
         [16, 126, 235, 100, 128, 128 :: jbyte])"
    by simp
  obtain out
    where o: "nativeYUV420toARGB8888 [16, 126, 235, 100, 128, 128] 2 2 [0, 0, 0, 0] = Inr out"
    and len: "length out = 4"
    and eq: "\<forall>k<4. red (out ! k) =
         channel (y1192 (luma ([16, 126, 235, 100, 128, 128] ! k))) \<and>
       green (out ! k) = red (out ! k) \<and> blue (out ! k) = red (out ! k)"
    and mono: "\<forall>j<4. \<forall>k<4.
       uint ([16, 126, 235, 100, 128, 128 :: jbyte] ! j)
         \<le> uint ([16, 126, 235, 100, 128, 128 :: jbyte] ! k) \<longrightarrow>
       uint (red (out ! j)) \<le> uint (red (out ! k))"
    using gray_axis [OF h l c] by auto
  have "green (out ! 1) = red (out ! 1) \<and> blue (out ! 1) = red (out ! 1)"
    using eq by simp
  moreover have "uint (red (out ! 0)) \<le> uint (red (out ! 3))"
    using mono [rule_format, of 0 3] by simp
  moreover have "uint (red (out ! 3)) \<le> uint (red (out ! 1))"
    using mono [rule_format, of 3 1] by simp
  moreover have "uint (red (out ! 1)) \<le> uint (red (out ! 2))"
    using mono [rule_format, of 1 2] by simp
  ultimately show ?thesis using h o len by simp
qed

subsection \<open>Luma below the pedestal\<close>

text \<open>
  Claim C7 fails as stated.
  The 2 x 2 frame \<open>[0,0,0,0, 128,128]\<close> is not converted to \<open>0xFF000000\<close> either: as for
  the frame of luma 16, every word is \<open>0xFF020202\<close>.
\<close>

theorem below_pedestal_counterexample:
  "nativeYUV420toARGB8888 [0, 0, 0, 0, 128, 128] 2 2 [0, 0, 0, 0] \<noteq>
     Inr [0xFF000000, 0xFF000000, 0xFF000000, 0xFF000000]"
proof -
  have "nativeYUV420toARGB8888 [0, 0, 0, 0, 128, 128] 2 2 [0, 0, 0, 0] =
     Inr [0xFF020202, 0xFF020202, 0xFF020202, 0xFF020202]"
    by code_simp
  then show ?thesis by simp
qed

text \<open>
  Claim C7, amended. For the 2 x 2 frame \<open>[0,0,0,0, 128,128]\<close> the luma below the
  pedestal is clamped to 0 before the matrix (\<open>y'\<close> is 0, as it is for \<open>Y = 16\<close>), so
  the output is the output of the frame \<open>[16,16,16,16, 128,128]\<close>: every word is
  \<open>0xFF020202\<close>, whatever the output array held before.
\<close>

theorem below_pedestal:
  "luma 0 = 0 \<and> luma 0 = luma 16 \<and>
   nativeYUV420toARGB8888 [0, 0, 0, 0, 128, 128] 2 2 [a, b, c, d] =
     nativeYUV420toARGB8888 [16, 16, 16, 16, 128, 128] 2 2 [a, b, c, d] \<and>
   nativeYUV420toARGB8888 [0, 0, 0, 0, 128, 128] 2 2 [a, b, c, d] =
     Inr [0xFF020202, 0xFF020202, 0xFF020202, 0xFF020202]"
proof -
  have h0: "valid_frame [0, 0, 0, 0, 128, 128] 2 2 [a, b, c, d]"
    and h16: "valid_frame [16, 16, 16, 16, 128, 128] 2 2 [a, b, c, d]"
    by (simp_all add: valid_frame_def)
  have p: "argb (luma 0) 0 0 = 0xFF020202"
    using black_pixel by (simp add: luma_below_pedestal)
  have "nativeYUV420toARGB8888 [0, 0, 0, 0, 128, 128] 2 2 [a, b, c, d] =
     Inr [0xFF020202, 0xFF020202, 0xFF020202, 0xFF020202]"
    by (simp add: convert_valid [OF h0] pixel_of_def uv_offset_def chroma_neutral p
        upt_conv_Cons)
  moreover have "nativeYUV420toARGB8888 [16, 16, 16, 16, 128, 128] 2 2 [a, b, c, d] =
     Inr [0xFF020202, 0xFF020202, 0xFF020202, 0xFF020202]"
    by (simp add: convert_valid [OF h16] pixel_of_def uv_offset_def chroma_neutral black_pixel
        upt_conv_Cons)
  ultimately show ?thesis by (simp add: luma_below_pedestal)
qed

subsection \<open>Inputs that violate the preconditions\<close>

text \<open>
  Claim C8 fails as stated.
  The source checks neither the dimensions nor the lengths of the arrays, and it returns
  \<open>void\<close>. A 1 x 1 frame (odd dimensions, three input bytes) and a 2 x 2 frame with one
  input byte too many are both converted without any failure, and the output is
  overwritten.
\<close>

theorem unchecked_input_counterexample:
  "\<not> valid_frame [16, 128, 128] 1 1 [0] \<and>
   nativeYUV420toARGB8888 [16, 128, 128] 1 1 [0] = Inr [0xFF020202] \<and>
   \<not> valid_frame [16, 16, 16, 16, 128, 128, 7] 2 2 [0, 0, 0, 0] \<and>
   nativeYUV420toARGB8888 [16, 16, 16, 16, 128, 128, 7] 2 2 [0, 0, 0, 0] =
     Inr [0xFF020202, 0xFF020202, 0xFF020202, 0xFF020202]"
proof -
  have "nativeYUV420toARGB8888 [16, 128, 128] 1 1 [0] = Inr [0xFF020202]"
    by code_simp
  moreover have "nativeYUV420toARGB8888 [16, 16, 16, 16, 128, 128, 7] 2 2 [0, 0, 0, 0] =
     Inr [0xFF020202, 0xFF020202, 0xFF020202, 0xFF020202]"
    by code_simp
  ultimately show ?thesis by (simp add: valid_frame_def)
qed

text \<open>
  Claim C8, amended. The converter checks no precondition and signals no failure. When
  the width or the height is not positive it writes nothing and the output array is
  left untouched. When both are positive and every access lies inside the two arrays
  (\<open>in_bounds\<close>, which holds for odd dimensions and for arrays longer than required as
  well), it runs to the end and overwrites the first \<open>width * height\<close> output words
  with the converted pixels, leaving the words after them as they were.
\<close>

theorem unchecked_input:
  "(\<not> (0 <s width \<and> 0 <s height) \<longrightarrow>
      nativeYUV420toARGB8888 yuv width height rgbOut = Inr rgbOut) \<and>
   (in_bounds yuv width height rgbOut \<longrightarrow>
      nativeYUV420toARGB8888 yuv width height rgbOut =
        Inr (map (pixel_of yuv (nat (sint width)) (nat (sint height)))
               [0..<nat (sint width) * nat (sint height)]
             @ drop (nat (sint width) * nat (sint height)) rgbOut))"
  using convert_not_positive [of width height yuv rgbOut]
    convert_in_bounds [of yuv width height rgbOut]
  by blast

theorem unchecked_input_witness:
  "\<not> (0 <s (0 :: jint) \<and> 0 <s (2 :: jint)) \<and>
   nativeYUV420toARGB8888 [16, 16] 0 2 [5, 6] = Inr [5, 6] \<and>
   in_bounds [16, 200, 100, 128, 128, 90, 240] 3 1 [5, 6, 7, 8] \<and>
   nativeYUV420toARGB8888 [16, 200, 100, 128, 128, 90, 240] 3 1 [5, 6, 7, 8] =
     Inr [argb (luma 16) (chroma 128) (chroma 128),
          argb (luma 200) (chroma 128) (chroma 128),
          argb (luma 100) (chroma 240) (chroma 90), 8]"
proof -
  have a: "\<not> (0 <s (0 :: jint) \<and> 0 <s (2 :: jint))" by (simp add: word_sless_alt)
  have b: "in_bounds [16, 200, 100, 128, 128, 90, 240] 3 1 [5, 6, 7, 8]"
    by (simp add: in_bounds_def)
  show ?thesis
    using a b unchecked_input [of 0 2 "[16, 16]" "[5, 6]"]
      unchecked_input [of 3 1 "[16, 200, 100, 128, 128, 90, 240]" "[5, 6, 7, 8]"]
    by (simp add: pixel_of_def uv_offset_def upt_conv_Cons)
qed

subsection \<open>No overflow\<close>

text \<open>
  Claim C9. Whatever the three bytes of a pixel are, no step of the per-pixel
  computation overflows signed 32-bit arithmetic: the operands are bounded
  (\<open>|y'| \<le> 255\<close>, \<open>|u'| \<le> 128\<close>, \<open>|v'| \<le> 128\<close>), and the signed value of every
  wrapping product, sum and difference of lines 35 to 38, of the shift plus 2 of lines
  40 to 42 and of the two left shifts of line 44 is the exact integer result. The
  packed word of line 44 is a bitwise OR with the unsigned constant \<open>0xff000000\<close>; it
  loses no bit of its operands and fits in 32 bits.
\<close>

theorem pixel_arithmetic_no_overflow:
  "\<bar>sint (luma yb)\<bar> \<le> 255 \<and> \<bar>sint (chroma ub)\<bar> \<le> 128 \<and> \<bar>sint (chroma vb)\<bar> \<le> 128 \<and>
   sint (y1192 (luma yb)) = 1192 * sint (luma yb) \<and>
   sint (1634 * chroma vb) = 1634 * sint (chroma vb) \<and>
   sint (833 * chroma vb) = 833 * sint (chroma vb) \<and>
   sint (400 * chroma ub) = 400 * sint (chroma ub) \<and>
   sint (2066 * chroma ub) = 2066 * sint (chroma ub) \<and>
   sint (r_pre (luma yb) (chroma vb)) = 1192 * sint (luma yb) + 1634 * sint (chroma vb) \<and>
   sint (y1192 (luma yb) - 833 * chroma vb) =
     1192 * sint (luma yb) - 833 * sint (chroma vb) \<and>
   sint (g_pre (luma yb) (chroma ub) (chroma vb)) =
     1192 * sint (luma yb) - 833 * sint (chroma vb) - 400 * sint (chroma ub) \<and>
   sint (b_pre (luma yb) (chroma ub)) = 1192 * sint (luma yb) + 2066 * sint (chroma ub) \<and>
   sint (signed_drop_bit 10 c + 2) = sint c div 2 ^ 10 + 2 \<and>
   sint (push_bit 16 (channel c)) = 2 ^ 16 * sint (channel c) \<and>
   sint (push_bit 8 (channel c)) = 2 ^ 8 * sint (channel c) \<and>
   uint (pack (channel r) (channel g) (channel b)) =
     0xFF000000 OR push_bit 16 (sint (channel r)) OR push_bit 8 (sint (channel g))
       OR sint (channel b) \<and>
   uint (pack (channel r) (channel g) (channel b)) < 2 ^ 32"
proof -
  have "\<bar>sint (luma yb)\<bar> \<le> 255" using luma_range [of yb] by arith
  moreover have "\<bar>sint (chroma ub)\<bar> \<le> 128" using chroma_range [of ub] by arith
  moreover have "\<bar>sint (chroma vb)\<bar> \<le> 128" using chroma_range [of vb] by arith
  moreover have "sint (signed_drop_bit 10 c + 2) = sint c div 2 ^ 10 + 2"
    by (simp add: sint_shift2 drop_bit_eq_div)
  moreover have "sint (push_bit 16 (channel c)) = 2 ^ 16 * sint (channel c)"
    using sint_push16 [of c] by (simp add: push_bit_eq_mult)
  moreover have "sint (push_bit 8 (channel c)) = 2 ^ 8 * sint (channel c)"
    using sint_push8 [of c] by (simp add: push_bit_eq_mult)
  moreover have "uint (pack (channel r) (channel g) (channel b)) < 2 ^ 32"
    using uint_lt2p [of "pack (channel r) (channel g) (channel b)"] by simp
  ultimately show ?thesis
    using sint_y1192 [of yb] sint_1634 [of vb] sint_833 [of vb] sint_400 [of ub]
      sint_2066 [of ub] sint_r_pre [of yb vb] sint_g_part [of yb vb]
      sint_g_pre [of yb ub vb] sint_b_pre [of yb ub] uint_pack [of r g b]
    by (intro conjI) assumption+
qed

subsection \<open>Locality\<close>

text \<open>
  Claim C10. For two valid frames of the same dimensions and every pixel at column \<open>x\<close>
  of luma row \<open>i\<close>: if the two inputs agree on the luma byte at \<open>i * width + x\<close> and on
  the two chroma bytes at \<open>width * height + (i >> 1) * width + 2 * (x >> 1)\<close> and the
  offset after it, then both conversions return and the two output words at index
  \<open>i * width + x\<close> are equal, whatever the other input bytes and the previous contents
  of the output arrays are.
\<close>

theorem pixel_locality:
  assumes "valid_frame yuv1 width height rgb1" and "valid_frame yuv2 width height rgb2"
    and "i < nat (sint height)" and "x < nat (sint width)"
    and "yuv1 ! (i * nat (sint width) + x) = yuv2 ! (i * nat (sint width) + x)"
    and "yuv1 ! (nat (sint width) * nat (sint height) + (i div 2) * nat (sint width)
            + 2 * (x div 2)) =
         yuv2 ! (nat (sint width) * nat (sint height) + (i div 2) * nat (sint width)
            + 2 * (x div 2))"
    and "yuv1 ! (nat (sint width) * nat (sint height) + (i div 2) * nat (sint width)
            + 2 * (x div 2) + 1) =
         yuv2 ! (nat (sint width) * nat (sint height) + (i div 2) * nat (sint width)
            + 2 * (x div 2) + 1)"
  shows "\<exists>out1 out2.
    nativeYUV420toARGB8888 yuv1 width height rgb1 = Inr out1 \<and>
    nativeYUV420toARGB8888 yuv2 width height rgb2 = Inr out2 \<and>
    out1 ! (i * nat (sint width) + x) = out2 ! (i * nat (sint width) + x)"
  using pixel_index [OF assms(3,4)] uv_offset_at [OF assms(4), of "nat (sint height)" i]
    assms(5-7)
  by (simp add: convert_valid [OF assms(1)] convert_valid [OF assms(2)] pixel_of_def)

theorem pixel_locality_witness:
  "valid_frame [16, 235, 200, 16, 240, 90] 2 2 [0, 0, 0, 0] \<and>
   valid_frame [77, 235, 100, 55, 240, 90] 2 2 [1, 2, 3, 4] \<and>
   (\<exists>out1 out2.
      nativeYUV420toARGB8888 [16, 235, 200, 16, 240, 90] 2 2 [0, 0, 0, 0] = Inr out1 \<and>
      nativeYUV420toARGB8888 [77, 235, 100, 55, 240, 90] 2 2 [1, 2, 3, 4] = Inr out2 \<and>
      out1 ! 1 = out2 ! 1)"
proof -
  have h1: "valid_frame [16, 235, 200, 16, 240, 90] 2 2 [0, 0, 0, 0]"
    and h2: "valid_frame [77, 235, 100, 55, 240, 90] 2 2 [1, 2, 3, 4]"
    by (simp_all add: valid_frame_def)
  have i: "(0::nat) < nat (sint (2 :: jint))" and x: "(1::nat) < nat (sint (2 :: jint))"
    by simp_all
  show ?thesis
    using h1 h2 pixel_locality [OF h1 h2 i x] by simp
qed

end
